theory Spec2Isabelle
  imports Complex_Main "HOL-Library.Log_Nat"
begin

section \<open>Numbers: binary64 arithmetic on rationals\<close>

text \<open>
  Timestamps, movement totals and every quotient computed by \<^verbatim>\<open>BodyTracking.py\<close> are
  Python/numpy floats (IEEE 754 binary64). A finite binary64 value is a rational number,
  and each arithmetic operation returns the exact result rounded to the nearest value
  with a 53-bit significand, ties going to the even significand. The model keeps the
  values as \<open>rat\<close> and writes the rounding out. The exponent range is taken as
  unbounded: overflow to infinity, subnormal numbers and NaN are not modelled, so \<open>fl\<close>
  is the rounding of binary64 on the exact results that lie in \<open>normal_range\<close>. Where
  Python raises OverflowError instead of returning infinity (an \<^verbatim>\<open>int\<close> operand too large
  for a float, an \<^verbatim>\<open>int / int\<close> quotient too large), the model raises it too.
\<close>

definition rne :: "rat \<Rightarrow> int" where
  \<comment> \<open>round to the nearest integer, ties to even\<close>
  "rne q = (let f = \<lfloor>q\<rfloor>; r = q - of_int f
            in if r < 1 / 2 then f
               else if 1 / 2 < r then f + 1
               else if even f then f else f + 1)"

definition expo :: "rat \<Rightarrow> int" where
  \<comment> \<open>the binary exponent of a non-zero number: \<open>2 powi expo x \<le> \<bar>x\<bar> < 2 powi (expo x + 1)\<close>\<close>
  "expo x = (let (p, q) = quotient_of \<bar>x\<bar>; d = bitlen p - bitlen q
             in if power_int 2 d \<le> \<bar>x\<bar> then d else d - 1)"

definition fl :: "rat \<Rightarrow> rat" where
  \<comment> \<open>rounding to binary64: 53 significant bits, round to nearest, ties to even\<close>
  "fl x = (if x = 0 then 0
           else let s = power_int 2 (expo x - 52) in of_int (rne (x / s)) * s)"

definition is_binary64 :: "rat \<Rightarrow> bool" where
  "is_binary64 x \<longleftrightarrow> fl x = x"

definition normal_range :: "rat \<Rightarrow> bool" where
  \<comment> \<open>zero, or a magnitude between the least normal and the greatest finite binary64
     value: where rounding with an unbounded exponent is the rounding of binary64\<close>
  "normal_range x \<longleftrightarrow>
     x = 0 \<or> (1 / 2 ^ 1022 \<le> \<bar>x\<bar> \<and> \<bar>x\<bar> \<le> (2 ^ 53 - 1) * 2 ^ 971)"


definition fsub :: "rat \<Rightarrow> rat \<Rightarrow> rat" where
  "fsub a b = fl (a - b)"

definition fmul :: "rat \<Rightarrow> rat \<Rightarrow> rat" where
  "fmul a b = fl (a * b)"

definition fdiv :: "rat \<Rightarrow> rat \<Rightarrow> rat" where
  "fdiv a b = fl (a / b)"

definition max_float :: rat where
  \<comment> \<open>the greatest finite binary64 value, \<^verbatim>\<open>sys.float_info.max\<close>\<close>
  "max_float = (2 ^ 53 - 1) * 2 ^ 971"

section \<open>Data model\<close>

text \<open>
  One row of the landmark table: the \<^verbatim>\<open>timestamp\<close> column (the first column) and the
  coordinate columns of the selected landmarks. The table is the list of its rows in
  capture order.
\<close>

record LandmarkRow =
  timestamp :: rat
  coords :: "rat list"

type_synonym TimeSeries = "LandmarkRow list"

datatype py_error =
  IndexError | AttributeError | ValueError string | OverflowError | ZeroDivisionError

text \<open>
  The numeric arguments \<^verbatim>\<open>total_movement\<close> and \<^verbatim>\<open>num_landmarks\<close> are Python numbers: an
  \<^verbatim>\<open>int\<close> of any size or a float. Python rounds an \<^verbatim>\<open>int\<close> operand of a float
  operation to binary64 and raises OverflowError when the rounded value is beyond
  \<open>max_float\<close>; \<^verbatim>\<open>int / int\<close> rounds the exact quotient, with the same check. An operation
  with a \<^verbatim>\<open>numpy.float64\<close> operand (the timestamps and their difference) converts an
  \<^verbatim>\<open>int\<close> operand in the same way and does not raise for a zero divisor.
\<close>

datatype py_num = PyInt int | PyFloat rat

definition num_value :: "py_num \<Rightarrow> rat" where
  "num_value a = (case a of PyInt n \<Rightarrow> of_int n | PyFloat x \<Rightarrow> x)"

definition rounded :: "rat \<Rightarrow> py_error + rat" where
  \<comment> \<open>rounding with Python's range check\<close>
  "rounded x = (if max_float < \<bar>fl x\<bar> then Inl OverflowError else Inr (fl x))"

definition int_to_float :: "int \<Rightarrow> py_error + rat" where
  \<comment> \<open>the conversion Python applies to an \<^verbatim>\<open>int\<close> operand of a float operation\<close>
  "int_to_float n = rounded (of_int n)"

definition py_truediv :: "py_num \<Rightarrow> py_num \<Rightarrow> py_error + rat" where
  \<comment> \<open>\<^verbatim>\<open>a / b\<close> on Python numbers\<close>
  "py_truediv a b =
     (case (a, b) of
        (PyInt x, PyInt y) \<Rightarrow>
          if y = 0 then Inl ZeroDivisionError else rounded (of_int x / of_int y)
      | (PyFloat x, PyInt y) \<Rightarrow>
          (case int_to_float y of
             Inl e \<Rightarrow> Inl e
           | Inr fy \<Rightarrow> if fy = 0 then Inl ZeroDivisionError else Inr (fdiv x fy))
      | (PyInt x, PyFloat y) \<Rightarrow>
          (case int_to_float x of
             Inl e \<Rightarrow> Inl e
           | Inr fx \<Rightarrow> if y = 0 then Inl ZeroDivisionError else Inr (fdiv fx y))
      | (PyFloat x, PyFloat y) \<Rightarrow>
          if y = 0 then Inl ZeroDivisionError else Inr (fdiv x y))"

definition truediv_float64 :: "py_num \<Rightarrow> rat \<Rightarrow> py_error + rat" where
  \<comment> \<open>\<^verbatim>\<open>a / d\<close> for a Python number \<open>a\<close> and a \<^verbatim>\<open>numpy.float64\<close> \<open>d\<close>\<close>
  "truediv_float64 a d =
     (case a of
        PyFloat x \<Rightarrow> Inr (fdiv x d)
      | PyInt n \<Rightarrow> (case int_to_float n of Inl e \<Rightarrow> Inl e | Inr fn \<Rightarrow> Inr (fdiv fn d)))"

definition float64_times_int :: "rat \<Rightarrow> int \<Rightarrow> py_error + rat" where
  \<comment> \<open>\<^verbatim>\<open>d * n\<close> for a \<^verbatim>\<open>numpy.float64\<close> \<open>d\<close> and a Python \<^verbatim>\<open>int\<close> \<open>n\<close>\<close>
  "float64_times_int d n =
     (case int_to_float n of Inl e \<Rightarrow> Inl e | Inr fn \<Rightarrow> Inr (fmul d fn))"



text \<open>
  The enumerations \<^verbatim>\<open>VideoMode\<close> and \<^verbatim>\<open>PoseProcessor\<close> are declared outside
  \<^verbatim>\<open>BodyTracking.py\<close>; the constructor only compares its arguments with their members.
  \<open>OtherMode\<close> and \<open>OtherProcessor\<close> stand for the argument values that equal no member.
\<close>

datatype VideoMode = CAMERA | VIDEO | OtherMode int

datatype PoseProcessor = MEDIAPIPE | YOLO | OtherProcessor string

datatype processor_obj = MediaPipeProcessor | YoloProcessor string

datatype video_source = CameraIndex nat | VideoFile string

text \<open>
  The \<^verbatim>\<open>cv2.VideoCapture\<close> handle, as far as this file uses it: what was opened, and the
  positions requested through \<^verbatim>\<open>cap.set(cv2.CAP_PROP_POS_MSEC, _)\<close>, oldest first.
\<close>

record VideoCapture =
  source :: video_source
  seeks :: "rat list"

record CameraPoseTracker =
  tracker_processor :: processor_obj
  selected_landmarks :: "nat list option"
  dataframe :: TimeSeries

definition get_dataframe :: "CameraPoseTracker \<Rightarrow> TimeSeries" where
  \<comment> \<open>Modelled from the spec: \<^verbatim>\<open>CameraPoseTracker.get_dataframe\<close> is defined outside
     \<^verbatim>\<open>BodyTracking.py\<close>; it returns the full TimeSeries snapshot.\<close>
  "get_dataframe t = dataframe t"

text \<open>
  The attributes of a \<^verbatim>\<open>BodyTracking\<close> object. \<open>stdout\<close> collects the lines written by
  \<^verbatim>\<open>print\<close>. The frame slots, the lock and the worker thread play no part in the
  operations below and are left out.
\<close>

record BodyTracking =
  processor :: processor_obj
  tracker :: CameraPoseTracker
  mode :: VideoMode
  path_video :: "string option"
  cap :: VideoCapture
  fps :: rat
  frame_interval :: rat
  text_id :: string
  starttime :: "rat option"
  endtime :: "rat option"
  stdout :: "string list"

section \<open>Construction and time window\<close>

definition select_processor :: "PoseProcessor \<Rightarrow> string \<Rightarrow> processor_obj option" where
  \<comment> \<open>lines 29-32: no \<^verbatim>\<open>else\<close> branch, so \<^verbatim>\<open>self.processor\<close> stays unset otherwise\<close>
  "select_processor p custom_model_path =
     (if p = MEDIAPIPE then Some MediaPipeProcessor
      else if p = YOLO then Some (YoloProcessor custom_model_path)
      else None)"

definition text_of :: "processor_obj \<Rightarrow> string" where
  "text_of p = (case p of YoloProcessor _ \<Rightarrow> ''YOLO'' | MediaPipeProcessor \<Rightarrow> ''MediaPipe'')"

definition init ::
  "(string \<Rightarrow> rat) \<Rightarrow> PoseProcessor \<Rightarrow> VideoMode \<Rightarrow> string \<Rightarrow> string \<Rightarrow> nat list option
     \<Rightarrow> py_error + BodyTracking" where
  \<comment> \<open>\<^verbatim>\<open>BodyTracking.__init__\<close>; \<open>probe_fps\<close> is what \<^verbatim>\<open>cap.get(cv2.CAP_PROP_FPS)\<close>
     reports for a file\<close>
  "init probe_fps processor_arg mode_arg path custom_model_path landmarks =
     (case select_processor processor_arg custom_model_path of
        None \<Rightarrow> Inl AttributeError
      | Some p \<Rightarrow>
          let trk = \<lparr>tracker_processor = p, selected_landmarks = landmarks, dataframe = []\<rparr>;
              mk = (\<lambda>pv c f.
                \<lparr>processor = p, tracker = trk, mode = mode_arg, path_video = pv, cap = c,
                 fps = f, frame_interval = fdiv 1 f, text_id = text_of p,
                 starttime = None, endtime = None, stdout = []\<rparr>)
          in if mode_arg = CAMERA then
               Inr (mk None \<lparr>source = CameraIndex 0, seeks = []\<rparr> 30)
             else if mode_arg = VIDEO then
               Inr (mk (Some path) \<lparr>source = VideoFile path, seeks = []\<rparr>
                      (if probe_fps path = 0 then 30 else probe_fps path))
             else
               Inl (ValueError ''Invalid mode selected. Use 0 for camera or 1 for video file.''))"

text \<open>
  In \<^verbatim>\<open>set_times\<close> the test \<^verbatim>\<open>self.starttime is not None\<close> follows the assignment of a
  number to \<^verbatim>\<open>self.starttime\<close>, so the seek always happens in that branch.
\<close>

definition cap_set_pos_msec :: "VideoCapture \<Rightarrow> rat \<Rightarrow> VideoCapture" where
  "cap_set_pos_msec c ms = c\<lparr>seeks := seeks c @ [ms]\<rparr>"

definition set_times :: "BodyTracking \<Rightarrow> rat \<Rightarrow> rat \<Rightarrow> py_error + BodyTracking" where
  "set_times self startsec endsec =
     (if mode self = VIDEO then
        if endsec > startsec then
          Inr (self\<lparr>starttime := Some startsec, endtime := Some endsec,
                     cap := cap_set_pos_msec (cap self) (fmul startsec 1000)\<rparr>)
        else
          Inr (self\<lparr>stdout := stdout self @ [''End time must be greater than start time'']\<rparr>)
      else Inr self)"

section \<open>Aggregator\<close>

definition getData :: "BodyTracking \<Rightarrow> TimeSeries" where
  "getData self = get_dataframe (tracker self)"


definition movement_per_second :: "BodyTracking \<Rightarrow> py_num \<Rightarrow> py_error + rat" where
  \<comment> \<open>\<^verbatim>\<open>timestamps[-1]\<close> raises IndexError on an array without elements\<close>
  "movement_per_second self total_movement =
     (let timestamps = map timestamp (getData self) in
      if timestamps = [] then Inl IndexError
      else
        let duration = fsub (last timestamps) (hd timestamps)
        in if duration \<le> 0 then Inr 0
           else truediv_float64 total_movement duration)"

definition movement_per_frame :: "BodyTracking \<Rightarrow> py_num \<Rightarrow> py_error + rat" where
  "movement_per_frame self total_movement =
     (let n_frames = int (length (getData self))
      in if n_frames \<le> 1 then Inr 0
         else py_truediv total_movement (PyInt (n_frames - 1)))"

definition normalized_movement_index ::
  "BodyTracking \<Rightarrow> py_num \<Rightarrow> int \<Rightarrow> py_error + rat" where
  "normalized_movement_index self total_movement num_landmarks =
     (let timestamps = map timestamp (getData self) in
      if timestamps = [] then Inl IndexError
      else
        let duration = fsub (last timestamps) (hd timestamps)
        in if duration \<le> 0 \<or> num_landmarks \<le> 0 then Inr 0
           else
             (case float64_times_int duration num_landmarks of
                Inl e \<Rightarrow> Inl e
              | Inr p \<Rightarrow> truediv_float64 total_movement p))"

definition movement_per_landmark :: "BodyTracking \<Rightarrow> py_num \<Rightarrow> int \<Rightarrow> py_error + rat" where
  "movement_per_landmark self total_movement num_landmarks =
     (if num_landmarks \<le> 0 then Inr 0
      else py_truediv total_movement (PyInt num_landmarks))"

section \<open>Example sessions\<close>

text \<open>
  A session in camera mode, as the constructor leaves it, whose tracker has accumulated
  the table \<open>df\<close>; and the same for a video file.
\<close>

definition camera_session :: "TimeSeries \<Rightarrow> BodyTracking" where
  "camera_session df =
     \<lparr>processor = MediaPipeProcessor,
      tracker = \<lparr>tracker_processor = MediaPipeProcessor, selected_landmarks = None,
                 dataframe = df\<rparr>,
      mode = CAMERA, path_video = None,
      cap = \<lparr>source = CameraIndex 0, seeks = []\<rparr>,
      fps = 30, frame_interval = fdiv 1 30, text_id = ''MediaPipe'',
      starttime = None, endtime = None, stdout = []\<rparr>"

definition video_session :: "TimeSeries \<Rightarrow> BodyTracking" where
  "video_session df =
     \<lparr>processor = MediaPipeProcessor,
      tracker = \<lparr>tracker_processor = MediaPipeProcessor, selected_landmarks = None,
                 dataframe = df\<rparr>,
      mode = VIDEO, path_video = Some ''walk.mp4'',
      cap = \<lparr>source = VideoFile ''walk.mp4'', seeks = []\<rparr>,
      fps = 25, frame_interval = fdiv 1 25, text_id = ''MediaPipe'',
      starttime = None, endtime = None, stdout = []\<rparr>"

definition row :: "rat \<Rightarrow> rat \<Rightarrow> LandmarkRow" where
  "row t x = \<lparr>timestamp = t, coords = [x]\<rparr>"

definition example_series :: TimeSeries where
  \<comment> \<open>the series \<^verbatim>\<open>[(t=0,x=0),(t=1,x=1),(t=2,x=4)]\<close>\<close>
  "example_series = [row 0 0, row 1 1, row 2 4]"

definition eight_rows :: TimeSeries where
  \<comment> \<open>eight rows, one second apart\<close>
  "eight_rows = [row 0 0, row 1 0, row 2 0, row 3 0, row 4 0, row 5 0, row 6 0, row 7 0]"



section \<open>Properties of the rounding\<close>

lemma rne_of_int: "rne (of_int n) = n"
  by (simp add: rne_def)

lemma rne_cases: "rne q = \<lfloor>q\<rfloor> \<or> rne q = \<lfloor>q\<rfloor> + 1"
  by (simp add: rne_def Let_def)

lemma rne_floor_le: "\<lfloor>q\<rfloor> \<le> rne q"
  using rne_cases [of q] by linarith

lemma rne_le_floor: "rne q \<le> \<lfloor>q\<rfloor> + 1"
  using rne_cases [of q] by linarith

lemma rne_mono:
  assumes "x \<le> y"
  shows "rne x \<le> rne y"
proof (cases "\<lfloor>x\<rfloor> = \<lfloor>y\<rfloor>")
  case True
  with assms have "x - of_int \<lfloor>x\<rfloor> \<le> y - of_int \<lfloor>y\<rfloor>" by simp
  with True show ?thesis
    by (auto simp: rne_def Let_def)
next
  case False
  with assms have "\<lfloor>x\<rfloor> < \<lfloor>y\<rfloor>"
    using floor_mono [of x y] by linarith
  then have "rne x \<le> \<lfloor>y\<rfloor>" using rne_le_floor [of x] by linarith
  then show ?thesis using rne_floor_le [of y] by linarith
qed

lemma rne_error: "\<bar>of_int (rne q) - q\<bar> \<le> 1 / 2"
proof -
  define f where "f = \<lfloor>q\<rfloor>"
  have b: "of_int f \<le> q" "q < of_int f + 1" unfolding f_def by linarith+
  have "rne q = (if q - of_int f < 1 / 2 then f
                 else if 1 / 2 < q - of_int f then f + 1
                 else if even f then f else f + 1)"
    by (simp add: rne_def Let_def f_def)
  then show ?thesis using b by (auto simp: abs_if)
qed

lemma expo_bounds:
  assumes "x \<noteq> 0"
  shows "power_int 2 (expo x) \<le> \<bar>x\<bar>" and "\<bar>x\<bar> < power_int 2 (expo x + 1)"
proof -
  obtain p q where pq: "quotient_of \<bar>x\<bar> = (p, q)" by (cases "quotient_of \<bar>x\<bar>")
  then have q: "0 < q" and x: "\<bar>x\<bar> = of_int p / of_int q"
    by (auto dest: quotient_of_denom_pos quotient_of_div)
  from assms have "0 < \<bar>x\<bar>" by simp
  with q x have p: "0 < p" by (simp add: zero_less_divide_iff)
  define d where "d = bitlen p - bitlen q"
  have e: "expo x = (if power_int 2 d \<le> \<bar>x\<bar> then d else d - 1)"
    by (simp add: expo_def pq d_def Let_def)
  have ap: "1 \<le> bitlen p" and aq: "1 \<le> bitlen q"
    using p q by (auto simp: bitlen_alt_def)
  have bp: "power_int 2 (bitlen p - 1) \<le> (of_int p :: rat)"
           "(of_int p :: rat) < power_int 2 (bitlen p)"
    using bitlen_bounds [OF p] ap by (simp_all add: power_int_def)
  have bq: "power_int 2 (bitlen q - 1) \<le> (of_int q :: rat)"
           "(of_int q :: rat) < power_int 2 (bitlen q)"
    using bitlen_bounds [OF q] aq by (simp_all add: power_int_def)
  have "power_int 2 (d - 1) = (power_int 2 (bitlen p - 1) :: rat) / power_int 2 (bitlen q)"
    by (simp add: d_def power_int_diff power_int_add algebra_simps)
  also have "\<dots> \<le> of_int p / of_int q"
    using bp bq p q by (intro frac_le) simp_all
  finally have lo: "power_int 2 (d - 1) \<le> \<bar>x\<bar>" by (simp add: x)
  have "of_int p / of_int q < (power_int 2 (bitlen p) :: rat) / power_int 2 (bitlen q - 1)"
    using bp bq p q by (intro frac_less) simp_all
  also have "\<dots> = power_int 2 (d + 1)"
    by (simp add: d_def power_int_diff power_int_add algebra_simps)
  finally have hi: "\<bar>x\<bar> < power_int 2 (d + 1)" by (simp add: x)
  show "power_int 2 (expo x) \<le> \<bar>x\<bar>" using lo by (simp add: e)
  show "\<bar>x\<bar> < power_int 2 (expo x + 1)" using hi by (auto simp add: e)
qed

lemma rne_minus: "rne (- q) = - rne q"
proof (cases "q = of_int \<lfloor>q\<rfloor>")
  case True
  then obtain n where "q = of_int n" ..
  then show ?thesis using rne_of_int [of n] rne_of_int [of "- n"] by simp
next
  case False
  define f where "f = \<lfloor>q\<rfloor>"
  have b: "of_int f < q" "q < of_int f + 1" using False unfolding f_def by linarith+
  then have fm: "\<lfloor>- q\<rfloor> = - f - 1" by (intro floor_unique) simp_all
  have 1: "rne q = (if q - of_int f < 1 / 2 then f
                 else if 1 / 2 < q - of_int f then f + 1
                 else if even f then f else f + 1)"
    by (simp add: rne_def Let_def f_def)
  have 2: "rne (- q) = (if - q - of_int (- f - 1) < 1 / 2 then - f - 1
                 else if 1 / 2 < - q - of_int (- f - 1) then - f
                 else if even (- f - 1) then - f - 1 else - f)"
    by (simp add: rne_def Let_def fm)
  show ?thesis unfolding 1 2 using b by auto
qed

lemma expo_minus: "expo (- x) = expo x"
  by (simp add: expo_def)

lemma fl_minus: "fl (- x) = - fl x"
  by (simp add: fl_def expo_minus rne_minus Let_def)

lemma fl_nonzero:
  "x \<noteq> 0 \<Longrightarrow> fl x = of_int (rne (x / power_int 2 (expo x - 52))) * power_int 2 (expo x - 52)"
  by (simp add: fl_def Let_def)

lemma fl_pos_bounds:
  assumes "0 < x"
  shows "power_int 2 (expo x) \<le> fl x" and "fl x \<le> power_int 2 (expo x + 1)"
proof -
  define s :: rat where "s = power_int 2 (expo x - 52)"
  have s: "0 < s" by (simp add: s_def)
  have f: "fl x = of_int (rne (x / s)) * s" using assms by (simp add: fl_nonzero s_def)
  have e1: "power_int 2 (expo x) = 2 ^ 52 * s"
    by (simp add: s_def power_int_diff)
  have e2: "power_int 2 (expo x + 1) = 2 ^ 53 * s"
    by (simp add: s_def power_int_diff power_int_add)
  from expo_bounds [of x] assms have "2 ^ 52 * s \<le> x" "x < 2 ^ 53 * s"
    by (simp_all add: e1 e2)
  with s have "of_int (2 ^ 52) \<le> x / s" "x / s \<le> of_int (2 ^ 53)"
    by (simp_all add: field_simps)
  then have "rne (of_int (2 ^ 52)) \<le> rne (x / s)" "rne (x / s) \<le> rne (of_int (2 ^ 53))"
    by (simp_all add: rne_mono)
  then have "2 ^ 52 \<le> rne (x / s)" "rne (x / s) \<le> 2 ^ 53"
    unfolding rne_of_int by simp_all
  then have "(2 ^ 52 :: rat) \<le> of_int (rne (x / s))" "of_int (rne (x / s)) \<le> (2 ^ 53 :: rat)"
    by (metis of_int_le_iff of_int_numeral of_int_power)+
  with s show "power_int 2 (expo x) \<le> fl x" "fl x \<le> power_int 2 (expo x + 1)"
    unfolding f e1 e2 by (simp_all add: mult_right_mono)
qed

lemma fl_pos: "0 < x \<Longrightarrow> 0 < fl x"
proof -
  assume "0 < x"
  then have "power_int 2 (expo x) \<le> fl x" by (rule fl_pos_bounds)
  moreover have "(0::rat) < power_int 2 (expo x)" by simp
  ultimately show ?thesis by linarith
qed

lemma fl_neg: "x < 0 \<Longrightarrow> fl x < 0"
  using fl_pos [of "- x"] by (simp add: fl_minus)

lemma fl_zero: "fl 0 = 0"
  by (simp add: fl_def)

lemma fl_le_zero_iff: "fl x \<le> 0 \<longleftrightarrow> x \<le> 0"
  using fl_pos [of x] fl_neg [of x] fl_zero by (cases x "0::rat" rule: linorder_cases) auto

lemma expo_mono:
  assumes "0 < x" "x \<le> y"
  shows "expo x \<le> expo y"
proof (rule ccontr)
  assume "\<not> expo x \<le> expo y"
  then have "expo y + 1 \<le> expo x" by simp
  then have "(power_int 2 (expo y + 1) :: rat) \<le> power_int 2 (expo x)"
    by (intro power_int_increasing) simp_all
  also have "\<dots> \<le> x" using expo_bounds(1) [of x] assms by simp
  also have "\<dots> \<le> y" by fact
  also have "\<dots> < power_int 2 (expo y + 1)" using expo_bounds(2) [of y] assms by simp
  finally show False by simp
qed

lemma fl_mono_pos:
  assumes "0 < x" "x \<le> y"
  shows "fl x \<le> fl y"
proof (cases "expo x = expo y")
  case True
  define s :: rat where "s = power_int 2 (expo x - 52)"
  have s: "0 < s" by (simp add: s_def)
  have "x / s \<le> y / s" using assms s by (simp add: divide_right_mono)
  then have "rne (x / s) \<le> rne (y / s)" by (rule rne_mono)
  then have "(of_int (rne (x / s)) :: rat) * s \<le> of_int (rne (y / s)) * s"
    using s by (simp add: mult_right_mono)
  moreover have "x \<noteq> 0" "y \<noteq> 0" using assms by simp_all
  ultimately show ?thesis using True by (simp add: fl_nonzero s_def)
next
  case False
  with expo_mono [OF assms] have "expo x + 1 \<le> expo y" by simp
  then have "(power_int 2 (expo x + 1) :: rat) \<le> power_int 2 (expo y)"
    by (intro power_int_increasing) simp_all
  moreover have "fl x \<le> power_int 2 (expo x + 1)" using fl_pos_bounds(2) assms by simp
  moreover have "power_int 2 (expo y) \<le> fl y" using fl_pos_bounds(1) [of y] assms by simp
  ultimately show ?thesis by linarith
qed

lemma fl_mono:
  assumes "x \<le> y"
  shows "fl x \<le> fl y"
proof -
  consider "0 < x" | "x \<le> 0" "0 \<le> y" | "y < 0" by linarith
  then show ?thesis
  proof cases
    case 1
    then show ?thesis using assms by (rule fl_mono_pos)
  next
    case 2
    then have "fl x \<le> 0" "0 \<le> fl y"
      using fl_le_zero_iff [of x] fl_le_zero_iff [of "- y"] by (simp_all add: fl_minus)
    then show ?thesis by simp
  next
    case 3
    then have "fl (- y) \<le> fl (- x)" using assms by (intro fl_mono_pos) simp_all
    then show ?thesis by (simp add: fl_minus)
  qed
qed

lemma fl_error: "\<bar>fl x - x\<bar> \<le> \<bar>x\<bar> / 2 ^ 53"
proof (cases "x = 0")
  case True
  then show ?thesis by (simp add: fl_def)
next
  case False
  define s :: rat where "s = power_int 2 (expo x - 52)"
  have s: "0 < s" by (simp add: s_def)
  have f: "fl x = of_int (rne (x / s)) * s" using False by (simp add: fl_nonzero s_def)
  have e1: "power_int 2 (expo x) = 2 ^ 52 * s"
    by (simp add: s_def power_int_diff)
  have "fl x - x = (of_int (rne (x / s)) - x / s) * s" using s by (simp add: f field_simps)
  then have "\<bar>fl x - x\<bar> = \<bar>of_int (rne (x / s)) - x / s\<bar> * s"
    using s by (simp add: abs_mult)
  also have "\<dots> \<le> 1 / 2 * s" using rne_error [of "x / s"] s by (intro mult_right_mono) simp_all
  also have "\<dots> = 2 ^ 52 * s / 2 ^ 53" by simp
  also have "\<dots> \<le> \<bar>x\<bar> / 2 ^ 53"
    using expo_bounds(1) [OF False] unfolding e1 by (intro divide_right_mono) simp_all
  finally show ?thesis .
qed

lemma expo_unique:
  assumes "power_int 2 k \<le> \<bar>x\<bar>" and "\<bar>x\<bar> < power_int 2 (k + 1)"
  shows "expo x = k"
proof -
  have "(0::rat) < power_int 2 k" by simp
  with assms(1) have "0 < \<bar>x\<bar>" by linarith
  then have x0: "x \<noteq> 0" by simp
  have "\<not> expo x < k"
  proof
    assume "expo x < k"
    then have "(power_int 2 (expo x + 1) :: rat) \<le> power_int 2 k"
      by (intro power_int_increasing) simp_all
    with expo_bounds(2) [OF x0] assms(1) show False by linarith
  qed
  moreover have "\<not> k < expo x"
  proof
    assume "k < expo x"
    then have "(power_int 2 (k + 1) :: rat) \<le> power_int 2 (expo x)"
      by (intro power_int_increasing) simp_all
    with expo_bounds(1) [OF x0] assms(2) show False by linarith
  qed
  ultimately show ?thesis by simp
qed

lemma fl_exact:
  assumes "x / power_int 2 (expo x - 52) = of_int m"
  shows "fl x = x"
proof (cases "x = 0")
  case True
  then show ?thesis by (simp add: fl_def)
next
  case False
  have "rne (x / power_int 2 (expo x - 52)) = m"
    unfolding assms by (rule rne_of_int)
  then have "fl x = of_int m * power_int 2 (expo x - 52)"
    using False by (simp add: fl_nonzero)
  also have "\<dots> = x" unfolding assms [symmetric] by simp
  finally show ?thesis .
qed

lemma fl_idem_pos:
  assumes "0 < x"
  shows "fl (fl x) = fl x"
proof -
  define e where "e = expo x"
  define s :: rat where "s = power_int 2 (e - 52)"
  define m where "m = rne (x / s)"
  have s: "0 < s" by (simp add: s_def)
  have f: "fl x = of_int m * s" using assms by (simp add: fl_nonzero s_def m_def e_def)
  have e1: "power_int 2 e = 2 ^ 52 * s" by (simp add: s_def power_int_diff)
  have e2: "power_int 2 (e + 1) = 2 ^ 53 * s" by (simp add: s_def power_int_diff power_int_add)
  have lo: "power_int 2 e \<le> fl x" and hi: "fl x \<le> power_int 2 (e + 1)"
    using fl_pos_bounds [OF assms] by (simp_all add: e_def)
  show ?thesis
  proof (cases "fl x = power_int 2 (e + 1)")
    case True
    have "expo (fl x) = e + 1"
      by (rule expo_unique) (simp_all add: True, intro power_int_strict_increasing, simp_all)
    then have "fl x / power_int 2 (expo (fl x) - 52) = of_int (2 ^ 52)"
      by (simp add: True power_int_diff power_int_add)
    then show ?thesis by (rule fl_exact)
  next
    case False
    with hi have "fl x < power_int 2 (e + 1)" by simp
    with lo have "expo (fl x) = e"
      using fl_pos [OF assms] by (intro expo_unique) simp_all
    then have "fl x / power_int 2 (expo (fl x) - 52) = of_int m"
      using s by (simp add: f s_def)
    then show ?thesis by (rule fl_exact)
  qed
qed

lemma fl_idem: "fl (fl x) = fl x"
proof -
  consider "0 < x" | "x = 0" | "x < 0" by linarith
  then show ?thesis
  proof cases
    case 1
    then show ?thesis by (rule fl_idem_pos)
  next
    case 2
    then show ?thesis by (simp add: fl_zero)
  next
    case 3
    then have "fl (fl (- x)) = fl (- x)" by (intro fl_idem_pos) simp
    then show ?thesis by (simp add: fl_minus)
  qed
qed

lemma is_binary64_fl: "is_binary64 (fl x)"
  by (simp add: is_binary64_def fl_idem)

text \<open>
  The rounding on values whose binary64 neighbours are well known: one tenth, one third,
  and the two ties just above \<open>2 ^ 53\<close>.
\<close>

lemma binary64_values:
  "fl (1 / 10) = 3602879701896397 / 36028797018963968"
  "fl (1 / 3) = 6004799503160661 / 18014398509481984"
  "fl (9007199254740993) = 9007199254740992"
  "fl (9007199254740995) = 9007199254740996"
  by code_simp+

lemma fl_of_int_small:
  assumes "\<bar>n\<bar> < 2 ^ 53"
  shows "fl (of_int n) = of_int n"
proof (cases "n = 0")
  case True
  then show ?thesis by (simp add: fl_def)
next
  case False
  define x :: rat where "x = of_int n"
  have x0: "x \<noteq> 0" using False by (simp add: x_def)
  have "\<bar>x\<bar> < 2 ^ 53" using assms unfolding x_def
    by (metis of_int_abs of_int_less_numeral_power_cancel_iff)
  have "expo x < 53"
  proof (rule ccontr)
    assume "\<not> expo x < 53"
    then have "(power_int 2 53 :: rat) \<le> power_int 2 (expo x)"
      by (intro power_int_increasing) simp_all
    also have "\<dots> \<le> \<bar>x\<bar>" using expo_bounds(1) [OF x0] .
    finally show False using \<open>\<bar>x\<bar> < 2 ^ 53\<close> by simp
  qed
  define k where "k = nat (52 - expo x)"
  have k: "expo x - 52 = - int k" using \<open>expo x < 53\<close> by (simp add: k_def)
  have s: "power_int 2 (expo x - 52) = 1 / (2 :: rat) ^ k"
    unfolding k by (simp add: power_int_minus field_simps)
  have "x / power_int 2 (expo x - 52) = x * 2 ^ k"
    by (simp add: s)
  then have "x / power_int 2 (expo x - 52) = of_int (n * 2 ^ k)"
    by (simp add: x_def)
  then have "rne (x / power_int 2 (expo x - 52)) = n * 2 ^ k"
    by (simp only: rne_of_int)
  then have "fl x = of_int (n * 2 ^ k) * (1 / 2 ^ k)"
    using x0 by (simp add: fl_nonzero s)
  then show ?thesis by (simp add: x_def)
qed

lemma fl_abs: "\<bar>fl x\<bar> = fl \<bar>x\<bar>"
proof -
  consider "0 < x" | "x = 0" | "x < 0" by linarith
  then show ?thesis
  proof cases
    case 1
    then show ?thesis using fl_pos [of x] by simp
  next
    case 2
    then show ?thesis by (simp add: fl_zero)
  next
    case 3
    then show ?thesis using fl_neg [of x] by (simp add: fl_minus)
  qed
qed

lemma fl_abs_mono: "\<bar>x\<bar> \<le> \<bar>y\<bar> \<Longrightarrow> \<bar>fl x\<bar> \<le> \<bar>fl y\<bar>"
  by (simp add: fl_abs fl_mono)

lemma fl_power_int2: "fl (power_int 2 k) = power_int 2 k"
proof -
  have "expo (power_int 2 k) = k"
    by (rule expo_unique) (simp_all add: power_int_strict_increasing)
  then have "power_int 2 k / power_int 2 (expo (power_int 2 k :: rat) - 52) = (of_int (2 ^ 52) :: rat)"
    by (simp add: power_int_diff)
  then show ?thesis by (rule fl_exact)
qed


lemma expo_max_float: "expo max_float = 1023"
  by (rule expo_unique) (simp_all add: max_float_def)

lemma fl_max_float: "fl max_float = max_float"
proof -
  have "max_float / power_int 2 (expo max_float - 52) = of_int (2 ^ 53 - 1)"
    by (simp add: expo_max_float) (simp add: max_float_def)
  then show ?thesis by (rule fl_exact)
qed

lemma fl_scale: "fl (x * power_int 2 k) = fl x * power_int 2 k"
proof (cases "x = 0")
  case True
  then show ?thesis by (simp add: fl_zero)
next
  case False
  have p: "(0 :: rat) < power_int 2 k" by simp
  have e: "expo (x * power_int 2 k) = expo x + k"
  proof (rule expo_unique)
    show "power_int 2 (expo x + k) \<le> \<bar>x * power_int 2 k\<bar>"
      using expo_bounds(1) [OF False] p
      by (simp add: power_int_add abs_mult mult_right_mono)
    show "\<bar>x * power_int 2 k\<bar> < power_int 2 (expo x + k + 1)"
      using expo_bounds(2) [OF False] p
      by (simp add: power_int_add abs_mult algebra_simps)
  qed
  have "x * power_int 2 k / power_int 2 (expo x + k - 52) = x / power_int 2 (expo x - 52)"
    by (simp add: power_int_diff power_int_add)
  then show ?thesis
    using False by (simp add: fl_nonzero e) (simp add: power_int_diff power_int_add)
qed

lemma rounded_le:
  assumes "\<bar>x\<bar> \<le> \<bar>y\<bar>" and "\<bar>fl y\<bar> \<le> max_float"
  shows "rounded x = Inr (fl x)"
  using fl_abs_mono [OF assms(1)] assms(2) by (simp add: rounded_def)

lemma max_float_pos: "0 < max_float"
  by (simp add: max_float_def)

lemma rounded_small: "\<bar>x\<bar> \<le> max_float \<Longrightarrow> rounded x = Inr (fl x)"
  using rounded_le [of x max_float] max_float_pos by (simp add: fl_max_float)


lemma int_to_float_small: "\<bar>n\<bar> < 2 ^ 53 \<Longrightarrow> int_to_float n = Inr (of_int n)"
proof -
  assume a: "\<bar>n\<bar> < 2 ^ 53"
  then have "\<bar>of_int n :: rat\<bar> < 2 ^ 53"
    by (metis of_int_abs of_int_less_numeral_power_cancel_iff)
  then have "\<bar>of_int n :: rat\<bar> \<le> max_float" by (simp add: max_float_def)
  then show ?thesis using a by (simp add: int_to_float_def rounded_small fl_of_int_small)
qed


lemma normal_range_fl:
  assumes "normal_range x"
  shows "normal_range (fl x)"
proof (cases "x = 0")
  case True
  then show ?thesis by (simp add: fl_zero normal_range_def)
next
  case False
  define L :: rat where "L = power_int 2 (- 1022)"
  have L: "L = 1 / 2 ^ 1022" by (simp add: L_def power_int_minus field_simps)
  from False assms have b: "L \<le> \<bar>x\<bar>" "\<bar>x\<bar> \<le> max_float"
    unfolding L by (simp_all add: normal_range_def max_float_def)
  have "fl L = L" unfolding L_def by (rule fl_power_int2)
  moreover have "fl L \<le> fl \<bar>x\<bar>" using b(1) by (rule fl_mono)
  ultimately have lo: "L \<le> \<bar>fl x\<bar>" by (simp add: fl_abs)
  have "fl \<bar>x\<bar> \<le> fl max_float" using b(2) by (rule fl_mono)
  then have "\<bar>fl x\<bar> \<le> max_float" by (simp add: fl_abs fl_max_float)
  with lo show ?thesis unfolding L by (simp add: normal_range_def max_float_def)
qed

section \<open>Sessions and helper facts\<close>

lemma getData_camera_session: "getData (camera_session df) = df"
  by (simp add: getData_def get_dataframe_def camera_session_def)

lemma init_camera_session:
  "init probe_fps MEDIAPIPE CAMERA path custom_model_path None = Inr (camera_session [])"
  by (simp add: init_def select_processor_def text_of_def camera_session_def)

lemma init_video_session:
  "init (\<lambda>_. 25) MEDIAPIPE VIDEO ''walk.mp4'' custom_model_path None = Inr (video_session [])"
  by (simp add: init_def select_processor_def text_of_def video_session_def)






lemma fl_small_values:
  "fl 2 = 2" "fl 3 = 3" "fl 4 = 4" "fl 6 = 6" "fl 7 = 7" "fl 29 = 29" "fl (3 / 2) = 3 / 2"
  by code_simp+

lemma rounded_moderate: "\<bar>x\<bar> \<le> 2 ^ 53 \<Longrightarrow> rounded x = Inr (fl x)"
proof -
  assume "\<bar>x\<bar> \<le> 2 ^ 53"
  moreover have "(2 :: rat) ^ 53 \<le> max_float" by (simp add: max_float_def)
  ultimately have "\<bar>x\<bar> \<le> max_float" by linarith
  then show ?thesis by (rule rounded_small)
qed

lemma py_truediv_small:
  assumes "2 \<le> m" and "m < 2 ^ 53" and "\<bar>num_value a / of_int m\<bar> \<le> max_float"
  shows "py_truediv a (PyInt m) = Inr (fl (num_value a / of_int m))"
proof (cases a)
  case (PyInt t)
  then show ?thesis using assms by (simp add: py_truediv_def num_value_def rounded_small)
next
  case (PyFloat x)
  have "\<bar>m\<bar> < 2 ^ 53" using assms by simp
  then have "int_to_float m = Inr (of_int m)" by (rule int_to_float_small)
  then show ?thesis using PyFloat assms by (simp add: py_truediv_def num_value_def fdiv_def)
qed

lemma exact_product_error:
  assumes "0 < m"
  shows "\<bar>fl (t / m) * m - t\<bar> \<le> \<bar>t\<bar> / 2 ^ 53"
proof -
  define q where "q = t / m"
  have t: "q * m = t" using assms by (simp add: q_def)
  have "\<bar>fl q * m - t\<bar> = \<bar>fl q - q\<bar> * m"
    unfolding t [symmetric] using assms by (simp add: abs_mult flip: left_diff_distrib)
  also have "\<dots> \<le> \<bar>q\<bar> / 2 ^ 53 * m"
    using fl_error [of q] assms by (intro mult_right_mono) simp_all
  also have "\<dots> = \<bar>t\<bar> / 2 ^ 53"
    unfolding t [symmetric] using assms by (simp add: abs_mult)
  finally show ?thesis unfolding q_def .
qed

lemma float_product_error:
  assumes "0 < m"
  shows "\<bar>fmul (fl (t / m)) m - t\<bar> \<le> \<bar>t\<bar> * (2 / 2 ^ 53 + 1 / 2 ^ 106)"
proof -
  define u :: rat where "u = 1 / 2 ^ 53"
  define w where "w = fl (t / m) * m"
  have u: "0 \<le> u" "u * u = 1 / 2 ^ 106" by (simp_all add: u_def)
  have 1: "\<bar>w - t\<bar> \<le> \<bar>t\<bar> * u"
    using exact_product_error [OF assms, of t] by (simp add: w_def u_def)
  then have 2: "\<bar>w\<bar> \<le> \<bar>t\<bar> + \<bar>t\<bar> * u" by linarith
  have "\<bar>fl w - w\<bar> \<le> \<bar>w\<bar> * u" using fl_error [of w] by (simp add: u_def)
  also have "\<dots> \<le> (\<bar>t\<bar> + \<bar>t\<bar> * u) * u" using 2 u(1) by (rule mult_right_mono)
  finally have 3: "\<bar>fl w - w\<bar> \<le> \<bar>t\<bar> * u + \<bar>t\<bar> * (u * u)" by (simp add: algebra_simps)
  have "\<bar>fl w - t\<bar> \<le> \<bar>fl w - w\<bar> + \<bar>w - t\<bar>" by linarith
  also have "\<dots> \<le> \<bar>t\<bar> * u + \<bar>t\<bar> * (u * u) + \<bar>t\<bar> * u" using 1 3 by linarith
  also have "\<dots> = \<bar>t\<bar> * (2 * u + u * u)" by (simp add: algebra_simps)
  finally show ?thesis unfolding u(2) by (simp add: fmul_def w_def u_def)
qed

lemma is_binary64_half_power:
  assumes "is_binary64 t"
  shows "is_binary64 (t / 2 ^ k)"
proof -
  have "t / 2 ^ k = t * power_int 2 (- int k)"
    by (simp add: power_int_minus field_simps)
  then have "fl (t / 2 ^ k) = fl t * power_int 2 (- int k)"
    by (simp only: fl_scale)
  also have "\<dots> = t / 2 ^ k"
    using assms by (simp add: is_binary64_def power_int_minus field_simps)
  finally show ?thesis by (simp add: is_binary64_def)
qed

lemma normal_range_product:
  assumes q: "normal_range (t / m)" and t: "\<bar>t\<bar> \<le> 2 ^ 1023" and m: "1 \<le> m"
  shows "normal_range (fl (t / m) * m)"
proof (cases "t = 0")
  case True
  then show ?thesis by (simp add: fl_zero normal_range_def)
next
  case False
  define L :: rat where "L = 1 / 2 ^ 1022"
  define v where "v = fl (t / m)"
  have nr: "normal_range x \<longleftrightarrow> x = 0 \<or> (L \<le> \<bar>x\<bar> \<and> \<bar>x\<bar> \<le> max_float)" for x
    by (simp add: normal_range_def L_def max_float_def)
  have q0: "t / m \<noteq> 0" using False m by simp
  then have v0: "v \<noteq> 0" using fl_le_zero_iff [of "t / m"] fl_le_zero_iff [of "- (t / m)"]
    by (auto simp: v_def fl_minus simp del: minus_divide_left)
  have "normal_range v" unfolding v_def using q by (rule normal_range_fl)
  with v0 have "L \<le> \<bar>v\<bar>" by (simp add: nr)
  moreover have "\<bar>v\<bar> * 1 \<le> \<bar>v\<bar> * m" using m by (intro mult_left_mono) simp_all
  ultimately have lo: "L \<le> \<bar>v * m\<bar>" using m by (simp add: abs_mult)
  have "0 < m" using m by simp
  then have "\<bar>v * m - t\<bar> \<le> \<bar>t\<bar> / 2 ^ 53"
    unfolding v_def by (rule exact_product_error)
  then have "\<bar>v * m\<bar> \<le> \<bar>t\<bar> + \<bar>t\<bar> / 2 ^ 53" by linarith
  also have "\<dots> \<le> 2 ^ 1023 + 2 ^ 1023 / 2 ^ 53"
    using t by (intro add_mono divide_right_mono) simp_all
  also have "\<dots> \<le> max_float" by (simp add: max_float_def)
  finally have "\<bar>v * m\<bar> \<le> max_float" .
  with lo show ?thesis unfolding v_def [symmetric] by (simp add: nr)
qed




section \<open>Totality of the aggregator functions\<close>




section \<open>Movement per frame and its inverse\<close>

text \<open>
  Claim C2 says that for a series of at least two rows
  \<^verbatim>\<open>movement_per_frame(total_movement) * (row_count - 1)\<close> equals \<^verbatim>\<open>total_movement\<close>.
  With eight rows and a total of 29, \<^verbatim>\<open>int\<close> or float, the quotient \<open>29 / 7\<close> is
  rounded, and the float product with 7 is not 29: Python prints
  \<^verbatim>\<open>29.000000000000004\<close>.
\<close>

theorem movement_per_frame_not_inverse:
  "2 \<le> length (getData (camera_session eight_rows)) \<and>
   int (length (getData (camera_session eight_rows))) - 1 = 7 \<and>
   movement_per_frame (camera_session eight_rows) (PyInt 29)
     = Inr (4664442471205157 / 1125899906842624) \<and>
   movement_per_frame (camera_session eight_rows) (PyFloat 29)
     = Inr (4664442471205157 / 1125899906842624) \<and>
   int_to_float 7 = Inr 7 \<and>
   fmul (4664442471205157 / 1125899906842624) 7 = 8162774324609025 / 281474976710656 \<and>
   (8162774324609025 / 281474976710656 :: rat) \<noteq> 29"
proof -
  have l: "int (length (getData (camera_session eight_rows))) - 1 = 7"
    by (simp add: getData_camera_session eight_rows_def)
  have v: "fl (29 / 7) = 4664442471205157 / 1125899906842624" by code_simp
  have m: "\<bar>29 / 7 :: rat\<bar> \<le> max_float" by (simp add: max_float_def)
  have c: "int_to_float 7 = Inr 7" using int_to_float_small [of 7] by simp
  have q: "py_truediv a (PyInt 7) = Inr (4664442471205157 / 1125899906842624)"
    if "num_value a = 29" for a
    using py_truediv_small [of 7 a] m that v by simp
  have f: "movement_per_frame (camera_session eight_rows) a
      = Inr (4664442471205157 / 1125899906842624)" if "num_value a = 29" for a
    using q [OF that] l
    by (simp add: movement_per_frame_def Let_def getData_camera_session eight_rows_def)
  have p: "fmul (4664442471205157 / 1125899906842624) 7 = 8162774324609025 / 281474976710656"
    by code_simp
  show ?thesis
    using f [of "PyInt 29"] f [of "PyFloat 29"] c p l
    by (simp add: num_value_def getData_camera_session eight_rows_def)
qed

text \<open>
  Claim C2, amended: for a series of at least two rows (and fewer than \<open>2 ^ 53\<close>), a
  total of magnitude at most \<open>2 ^ 1023\<close> and a quotient
  \<open>total_movement / (row_count - 1)\<close> in the normal range,
  \<^verbatim>\<open>movement_per_frame(total_movement)\<close> is that quotient rounded to binary64. The result
  and its float product with \<open>row_count - 1\<close> stay in the normal range, and the float
  product differs from \<open>total_movement\<close> by at most
  \<open>\<bar>total_movement\<bar> * (2 / 2 ^ 53 + 1 / 2 ^ 106)\<close>. The product equals
  \<open>total_movement\<close> when the total is a binary64 value and either the quotient is one
  too or \<open>row_count - 1\<close> is a power of two. The two range conditions keep quotient
  and product where \<open>fl\<close> is the rounding of binary64.
\<close>

theorem movement_per_frame_rounded_inverse:
  assumes "2 \<le> length (getData self)" and "length (getData self) < 2 ^ 53"
    and "normal_range (num_value total_movement / of_nat (length (getData self) - 1))"
    and "\<bar>num_value total_movement\<bar> \<le> 2 ^ 1023"
  shows "\<exists>v. movement_per_frame self total_movement = Inr v \<and>
     v = fl (num_value total_movement / of_nat (length (getData self) - 1)) \<and>
     int_to_float (int (length (getData self) - 1)) = Inr (of_nat (length (getData self) - 1)) \<and>
     normal_range v \<and>
     normal_range (fmul v (of_nat (length (getData self) - 1))) \<and>
     \<bar>fmul v (of_nat (length (getData self) - 1)) - num_value total_movement\<bar>
       \<le> \<bar>num_value total_movement\<bar> * (2 / 2 ^ 53 + 1 / 2 ^ 106) \<and>
     (is_binary64 (num_value total_movement) \<and>
      is_binary64 (num_value total_movement / of_nat (length (getData self) - 1))
        \<longrightarrow> fmul v (of_nat (length (getData self) - 1)) = num_value total_movement) \<and>
     (is_binary64 (num_value total_movement) \<and> (\<exists>k. length (getData self) - 1 = 2 ^ k)
        \<longrightarrow> fmul v (of_nat (length (getData self) - 1)) = num_value total_movement)"
proof -
  define m :: nat where "m = length (getData self) - 1"
  define t where "t = num_value total_movement"
  define q where "q = t / of_nat m"
  have m: "1 \<le> m" "int (length (getData self)) - 1 = int m" "int m < 2 ^ 53"
    using assms(1,2) by (simp_all add: m_def)
  have nq: "normal_range q" using assms(3) by (simp add: q_def t_def m_def)
  have c: "int_to_float (int m) = Inr (of_nat m)"
    using int_to_float_small [of "int m"] m(3) by simp
  have "\<bar>q\<bar> \<le> max_float"
    using nq max_float_pos by (auto simp: normal_range_def max_float_def)
  then have d: "py_truediv total_movement (PyInt (int m)) = Inr (fl q)"
  proof (cases total_movement)
    case (PyInt n)
    then show ?thesis
      using \<open>\<bar>q\<bar> \<le> max_float\<close> m(1)
      by (simp add: py_truediv_def q_def t_def num_value_def rounded_small)
  next
    case (PyFloat x)
    then show ?thesis
      using m(1) c by (simp add: py_truediv_def q_def t_def num_value_def fdiv_def)
  qed
  have v: "movement_per_frame self total_movement = Inr (fl q)"
    using assms(1) d by (simp add: movement_per_frame_def Let_def m(2))
  have nv: "normal_range (fl q)" using nq by (rule normal_range_fl)
  have "normal_range (fl (t / of_nat m) * of_nat m)"
    using nq assms(4) m(1) unfolding q_def t_def by (intro normal_range_product) simp_all
  then have np: "normal_range (fmul (fl q) (of_nat m))"
    unfolding fmul_def q_def by (rule normal_range_fl)
  have e: "\<bar>fmul (fl q) (of_nat m) - t\<bar> \<le> \<bar>t\<bar> * (2 / 2 ^ 53 + 1 / 2 ^ 106)"
    unfolding q_def using m(1) by (intro float_product_error) simp
  have x: "fmul (fl q) (of_nat m) = t" if "is_binary64 t" "is_binary64 q"
  proof -
    have "fl q * of_nat m = t" using that(2) m(1) by (simp add: is_binary64_def q_def)
    then show ?thesis using that(1) by (simp add: fmul_def is_binary64_def)
  qed
  have y: "fmul (fl q) (of_nat m) = t" if "is_binary64 t" "\<exists>k. m = 2 ^ k"
  proof -
    from that(2) obtain k where "m = 2 ^ k" ..
    then have "is_binary64 q" using is_binary64_half_power [OF that(1), of k] by (simp add: q_def)
    with that(1) show ?thesis by (rule x)
  qed
  show ?thesis
    unfolding m_def [symmetric] t_def [symmetric] q_def [symmetric]
    using v c nv np e x y by blast
qed

text \<open>
  The amended claim C2 on the three-row example with a total of 6: two frame
  intervals, a power of two, and the product is 6.
\<close>

theorem movement_per_frame_rounded_inverse_witness:
  "2 \<le> length (getData (camera_session example_series)) \<and>
   length (getData (camera_session example_series)) < 2 ^ 53 \<and>
   length (getData (camera_session example_series)) - 1 = 2 ^ 1 \<and>
   normal_range (num_value (PyInt 6) / 2) \<and>
   \<bar>num_value (PyInt 6)\<bar> \<le> 2 ^ 1023 \<and>
   is_binary64 (num_value (PyInt 6)) \<and>
   is_binary64 (num_value (PyInt 6) / 2) \<and>
   movement_per_frame (camera_session example_series) (PyInt 6) = Inr 3 \<and>
   fmul 3 2 = num_value (PyInt 6)"
proof -
  have l: "length (getData (camera_session example_series)) = 3"
    by (simp add: getData_camera_session example_series_def)
  have n: "num_value (PyInt 6) = 6" by (simp add: num_value_def)
  have b: "is_binary64 6" "is_binary64 3" by code_simp+
  have r: "normal_range 3" by (simp add: normal_range_def)
  have k: "\<exists>k. (2 :: nat) = 2 ^ k" by (rule exI [of _ 1]) simp
  show ?thesis
    using movement_per_frame_rounded_inverse [where self = "camera_session example_series"
        and total_movement = "PyInt 6"] b r k fl_small_values
    by (simp add: l n)
qed

section \<open>Degenerate boundaries\<close>




section \<open>The interval filter\<close>







section \<open>The worked example\<close>

text \<open>
  Claim C6: on the series \<^verbatim>\<open>[(t=0,x=0),(t=1,x=1),(t=2,x=4)]\<close> with a total movement of 6,
  \<^verbatim>\<open>movement_per_second\<close> is 3.0, \<^verbatim>\<open>movement_per_frame\<close> is 3.0,
  \<^verbatim>\<open>movement_per_landmark(6, 2)\<close> is 3.0 and \<^verbatim>\<open>normalized_movement_index(6, 2)\<close> is 1.5,
  for the \<^verbatim>\<open>int\<close> 6 and for the float 6.0.
\<close>

theorem example_values:
  "movement_per_second (camera_session example_series) (PyInt 6) = Inr 3 \<and>
   movement_per_frame (camera_session example_series) (PyInt 6) = Inr 3 \<and>
   movement_per_landmark (camera_session example_series) (PyInt 6) 2 = Inr 3 \<and>
   normalized_movement_index (camera_session example_series) (PyInt 6) 2 = Inr (3 / 2) \<and>
   movement_per_second (camera_session example_series) (PyFloat 6) = Inr 3 \<and>
   movement_per_frame (camera_session example_series) (PyFloat 6) = Inr 3 \<and>
   movement_per_landmark (camera_session example_series) (PyFloat 6) 2 = Inr 3 \<and>
   normalized_movement_index (camera_session example_series) (PyFloat 6) 2 = Inr (3 / 2)"
proof -
  have i: "int_to_float 2 = Inr 2" "int_to_float 6 = Inr 6"
    using int_to_float_small [of 2] int_to_float_small [of 6] by simp_all
  have r: "rounded 3 = Inr 3"
    using rounded_moderate [of 3] by (simp add: fl_small_values)
  have t: "map timestamp (getData (camera_session example_series)) = [0, 1, 2]"
    "length (getData (camera_session example_series)) = 3"
    by (simp_all add: getData_camera_session example_series_def row_def)
  show ?thesis
    by (simp add: movement_per_second_def movement_per_frame_def movement_per_landmark_def
        normalized_movement_index_def t py_truediv_def truediv_float64_def
        float64_times_int_def i r fsub_def fmul_def fdiv_def fl_small_values)
qed

section \<open>Construction with an invalid mode\<close>

text \<open>
  Claim C7: constructing a \<^verbatim>\<open>BodyTracking\<close> with a mode that is neither
  \<^verbatim>\<open>VideoMode.CAMERA\<close> nor \<^verbatim>\<open>VideoMode.VIDEO\<close> raises an error and builds no object. With
  a processor argument the constructor knows, the error is the ValueError of line 49;
  otherwise \<^verbatim>\<open>self.processor\<close> is unset and line 34 raises first.
\<close>

theorem init_invalid_mode:
  assumes "mode_arg \<noteq> CAMERA" and "mode_arg \<noteq> VIDEO"
  shows "isl (init probe_fps processor_arg mode_arg path custom_model_path landmarks) \<and>
    (processor_arg = MEDIAPIPE \<or> processor_arg = YOLO \<longrightarrow>
       init probe_fps processor_arg mode_arg path custom_model_path landmarks
         = Inl (ValueError ''Invalid mode selected. Use 0 for camera or 1 for video file.''))"
  using assms by (auto simp: init_def select_processor_def Let_def)

text \<open>
  Claim C7 at a mode value that is no member of the enumeration.
\<close>

theorem init_invalid_mode_witness:
  "OtherMode 2 \<noteq> CAMERA \<and> OtherMode 2 \<noteq> VIDEO \<and>
   init (\<lambda>_. 25) MEDIAPIPE (OtherMode 2) ''walk.mp4'' [] None
     = Inl (ValueError ''Invalid mode selected. Use 0 for camera or 1 for video file.'')"
  using init_invalid_mode [of "OtherMode 2" "\<lambda>_. 25" MEDIAPIPE "''walk.mp4''" "[]" None]
  by simp

section \<open>The time window\<close>

text \<open>
  Claim C8: in video mode, \<^verbatim>\<open>set_times(startsec, endsec)\<close> with \<open>endsec \<le> startsec\<close>
  returns normally, prints the warning, and leaves \<^verbatim>\<open>starttime\<close>, \<^verbatim>\<open>endtime\<close> and the
  video source as they were.
\<close>

theorem set_times_rejects_window:
  assumes "mode self = VIDEO" and "endsec \<le> startsec"
  shows "\<exists>self'. set_times self startsec endsec = Inr self' \<and>
     starttime self' = starttime self \<and> endtime self' = endtime self \<and>
     cap self' = cap self \<and>
     stdout self' = stdout self @ [''End time must be greater than start time'']"
  using assms by (simp add: set_times_def)

text \<open>
  Claim C8 on a freshly constructed video session, with the window (5, 3).
\<close>

theorem set_times_rejects_window_witness:
  "init (\<lambda>_. 25) MEDIAPIPE VIDEO ''walk.mp4'' [] None = Inr (video_session []) \<and>
   mode (video_session []) = VIDEO \<and> (3 :: rat) \<le> 5 \<and>
   (\<exists>self'. set_times (video_session []) 5 3 = Inr self' \<and>
     starttime self' = None \<and> endtime self' = None \<and>
     cap self' = \<lparr>source = VideoFile ''walk.mp4'', seeks = []\<rparr> \<and>
     stdout self' = [''End time must be greater than start time''])"
  using set_times_rejects_window [of "video_session []" 3 5]
  by (simp add: init_video_session) (simp add: video_session_def)

text \<open>
  Claim C9: in camera mode \<^verbatim>\<open>set_times\<close> changes nothing: the object is returned as it
  was, so \<^verbatim>\<open>starttime\<close> and \<^verbatim>\<open>endtime\<close> keep their values (None after construction),
  nothing is printed and no seek is requested.
\<close>

theorem set_times_camera_noop:
  "(mode self = CAMERA \<longrightarrow> set_times self startsec endsec = Inr self) \<and>
   (init probe_fps processor_arg CAMERA path custom_model_path landmarks = Inr self \<longrightarrow>
      set_times self startsec endsec = Inr self \<and> starttime self = None \<and> endtime self = None)"
  by (auto simp: set_times_def init_def Let_def split: option.splits)

text \<open>
  Claim C9 on a freshly constructed camera session.
\<close>

theorem set_times_camera_noop_witness:
  "mode (camera_session []) = CAMERA \<and>
   init (\<lambda>_. 0) MEDIAPIPE CAMERA [] [] None = Inr (camera_session []) \<and>
   set_times (camera_session []) 2 7 = Inr (camera_session []) \<and>
   starttime (camera_session []) = None \<and> endtime (camera_session []) = None \<and>
   stdout (camera_session []) = [] \<and> seeks (cap (camera_session [])) = []"
  using set_times_camera_noop [of "camera_session []" 2 7 "\<lambda>_. 0" MEDIAPIPE "[]" "[]" None]
  by (simp add: init_camera_session) (simp add: camera_session_def)

section \<open>Movement per landmark\<close>

text \<open>
  Claim C10: \<^verbatim>\<open>movement_per_landmark\<close> depends on its two arguments only; two objects,
  whatever their accumulated series, give the same result.
\<close>

theorem movement_per_landmark_ignores_state:
  "movement_per_landmark self1 total_movement n = movement_per_landmark self2 total_movement n"
  by (simp add: movement_per_landmark_def)

end
